theory Spec2Isabelle
  imports Main "HOL-Library.Sublist" "HOL-Library.Word"
begin

section \<open>The relay driver: \<open>src/relayer/src/index.ts\<close>\<close>

subsection \<open>Data\<close>

type_synonym url = string

text \<open>A type registry is an object literal from type names to codec names.\<close>

type_synonym registry = "(string \<times> string) list"

text \<open>A thrown value or the reason of a rejected promise.\<close>

datatype error = Error string

text \<open>The object \<open>loadConfig()\<close> returns; its three fields are the ones the driver reads.\<close>

record config =
  targetChainUrl :: url
  sourceChainUrls :: "url list"
  accountSeed :: string

text \<open>
  The value \<open>ApiPromise.create({ provider, types })\<close> resolves to: a handle over
  \<open>new WsProvider(url)\<close> that carries the registry it was created with.
\<close>

record api =
  provider :: url
  registry :: "registry option"

datatype signer = KeyringPair string

text \<open>
  Modelled from the spec: the objects \<open>new Source({ api, chain })\<close> and
  \<open>new Target({ api, signer })\<close> make (the classes, \<open>./source\<close> and \<open>./target\<close>, are missing).
  A Source "wraps one ChainHandle bound to a source chain" with that chain's identity; a
  Target "wraps a ChainHandle bound to the target chain plus a Signer".
\<close>

record source =
  source_api :: api
  source_chain :: string

record target =
  target_api :: api
  target_signer :: signer

text \<open>
  Modelled from the spec: what \<open>source.subscribeBlocks()\<close> returns (\<open>./source\<close> is missing), "a
  lazy sequence of Block", identified by the source it observes.
\<close>

datatype block_subscription = BlocksOf source

subsection \<open>The collaborators the driver calls\<close>

text \<open>
  The driver calls four things it does not define: \<open>loadConfig\<close>, the websocket connection
  under \<open>ApiPromise.create\<close>, the RPC \<open>api.rpc.system.chain()\<close> and \<open>getAccount\<close>. They are
  parameters of the model. Each may fail: \<open>Inl\<close> (or \<open>Some e\<close> for the connection, which
  returns nothing of its own) is the thrown error or the rejection.
\<close>

record env =
  loadConfig :: "error + config"
  wsConnect :: "url \<Rightarrow> registry option \<Rightarrow> error option"
  systemChain :: "api \<Rightarrow> error + string"
  getAccount :: "string \<Rightarrow> error + signer"

text \<open>Every call the driver makes on a collaborator, in the order it makes them.\<close>

datatype event =
    EvLoadConfig
  | EvCreateApi url "registry option"
  | EvGetAccount string
  | EvNewTarget api signer
  | EvSystemChain api
  | EvNewSource api string
  | EvSubscribeBlocks source
  | EvProcessBlocks target "block_subscription list"
  | EvSubscribe

subsection \<open>The module\<close>

text \<open>\<open>const types = { PutDataObject: "Vec<u8>" }\<close>\<close>

definition types :: registry where
  "types = [(''PutDataObject'', ''Vec<u8>'')]"

text \<open>
  \<open>createApi(url, types?)\<close>: the provider is built on the URL and the handle is created
  with the provider and the registry given (\<open>undefined\<close> is \<open>None\<close>).
\<close>

definition createApi :: "env \<Rightarrow> url \<Rightarrow> registry option \<Rightarrow> error + api" where
  "createApi en u tys =
     (case wsConnect en u tys of
        Some e \<Rightarrow> Inl e
      | None \<Rightarrow> Inr \<lparr>provider = u, registry = tys\<rparr>)"

text \<open>
  The callback mapped over \<open>config.sourceChainUrls\<close> is an async function with two awaits.
  Its call runs up to the first await (\<open>createApi(url)\<close> has been called); the rest runs
  when the awaited promise settles. A task is where one such call stands.
\<close>

datatype task =
    AwaitCreateApi url
  | AwaitChain api
  | Fulfilled source

datatype resumed = Rejects error | Continues task "event list"

fun resume :: "env \<Rightarrow> task \<Rightarrow> resumed" where
  "resume en (AwaitCreateApi u) =
     (case createApi en u None of
        Inl e \<Rightarrow> Rejects e
      | Inr a \<Rightarrow> Continues (AwaitChain a) [EvSystemChain a])"
| "resume en (AwaitChain a) =
     (case systemChain en a of
        Inl e \<Rightarrow> Rejects e
      | Inr c \<Rightarrow> Continues (Fulfilled \<lparr>source_api = a, source_chain = c\<rparr>) [EvNewSource a c])"
| "resume en (Fulfilled s) = Continues (Fulfilled s) []"

datatype 'a promise = Pending | Resolved 'a | Rejected error

text \<open>The values of the tasks when every one of them is fulfilled, in the order of the tasks.\<close>

fun settled :: "task list \<Rightarrow> source list option" where
  "settled [] = Some []"
| "settled (Fulfilled s # ts) = map_option ((#) s) (settled ts)"
| "settled (AwaitCreateApi u # ts) = None"
| "settled (AwaitChain a # ts) = None"

text \<open>
  \<open>Promise.all\<close> over the tasks. The order in which the awaited promises settle is not the
  driver's to choose: the schedule lists, one after the other, the index of the task whose
  awaited promise settles next. \<open>Promise.all\<close> resolves with the values in the order of the
  tasks once all are fulfilled, rejects with the first rejection, and stays pending when
  the schedule ends before either.
\<close>

fun promise_all :: "env \<Rightarrow> nat list \<Rightarrow> task list \<Rightarrow> event list \<times> source list promise" where
  "promise_all en [] ts =
     (case settled ts of Some ss \<Rightarrow> ([], Resolved ss) | None \<Rightarrow> ([], Pending))"
| "promise_all en (i # sched) ts =
     (case settled ts of
        Some ss \<Rightarrow> ([], Resolved ss)
      | None \<Rightarrow>
          if i < length ts then
            (case resume en (ts ! i) of
               Rejects e \<Rightarrow> ([], Rejected e)
             | Continues t evs \<Rightarrow>
                 (case promise_all en sched (ts[i := t]) of (evs', r) \<Rightarrow> (evs @ evs', r)))
          else promise_all en sched ts)"

text \<open>How the module ends: its top level throws, or the promise of the async function settles or not.\<close>

datatype outcome = ModuleThrew error | IifeRejected error | IifePending | IifeResolved

text \<open>The body of the async function, after \<open>targetApi\<close> and \<open>signer\<close> are bound.\<close>

definition relay :: "env \<Rightarrow> nat list \<Rightarrow> config \<Rightarrow> api \<Rightarrow> signer \<Rightarrow> event list \<times> outcome" where
  "relay en sched cfg targetApi kp =
     (let tgt = \<lparr>target_api = targetApi, target_signer = kp\<rparr>;
          started = map (\<lambda>u. EvCreateApi u None) (sourceChainUrls cfg)
      in case promise_all en sched (map AwaitCreateApi (sourceChainUrls cfg)) of
           (evs, Rejected e) \<Rightarrow> (EvNewTarget targetApi kp # started @ evs, IifeRejected e)
         | (evs, Pending) \<Rightarrow> (EvNewTarget targetApi kp # started @ evs, IifePending)
         | (evs, Resolved sources) \<Rightarrow>
             (EvNewTarget targetApi kp # started @ evs
                @ map EvSubscribeBlocks sources
                @ [EvProcessBlocks tgt (map BlocksOf sources), EvSubscribe],
              IifeResolved))"

text \<open>
  The promise awaited at \<open>await createApi(config.targetChainUrl, types)\<close> resolves, rejects
  or never settles: \<open>createApi\<close> sets no time limit on \<open>ApiPromise.create\<close>. For the sources
  the schedule says when an awaited promise settles; for the target this does.
\<close>

datatype awaited = Settles | NeverSettles

text \<open>
  The module: \<open>loadConfig()\<close> at the top level, then the async function, called at once.
  While the target connection has not settled the async function stands at its first
  await, having called \<open>createApi\<close> for the target and nothing else.
\<close>

definition startup :: "awaited \<Rightarrow> env \<Rightarrow> nat list \<Rightarrow> event list \<times> outcome" where
  "startup target_connection en sched =
     (case loadConfig en of
        Inl e \<Rightarrow> ([EvLoadConfig], ModuleThrew e)
      | Inr cfg \<Rightarrow>
          (case target_connection of
             NeverSettles \<Rightarrow>
               ([EvLoadConfig, EvCreateApi (targetChainUrl cfg) (Some types)], IifePending)
           | Settles \<Rightarrow>
               (case createApi en (targetChainUrl cfg) (Some types) of
                  Inl e \<Rightarrow>
                    ([EvLoadConfig, EvCreateApi (targetChainUrl cfg) (Some types)], IifeRejected e)
                | Inr targetApi \<Rightarrow>
                    (case getAccount en (accountSeed cfg) of
                       Inl e \<Rightarrow>
                         ([EvLoadConfig, EvCreateApi (targetChainUrl cfg) (Some types),
                           EvGetAccount (accountSeed cfg)], IifeRejected e)
                     | Inr kp \<Rightarrow>
                         (case relay en sched cfg targetApi kp of
                            (evs, out) \<Rightarrow>
                              (EvLoadConfig # EvCreateApi (targetChainUrl cfg) (Some types)
                                 # EvGetAccount (accountSeed cfg) # evs, out))))))"

text \<open>The module when the promise of the target connection settles.\<close>

definition main :: "env \<Rightarrow> nat list \<Rightarrow> event list \<times> outcome" where
  "main en sched = startup Settles en sched"

text \<open>
  The module installs no handler: no \<open>catch\<close>, no \<open>process.exit\<close>, no listener. What the
  process does is then the runtime's: an exception at the top level of the module and
  a rejection nobody handles both end a Node.js process with exit code 1 (the default
  since Node 15), and otherwise the process lives as long as its connections do.
\<close>

datatype process_status = Exited nat | Running

fun node_process :: "outcome \<Rightarrow> process_status" where
  "node_process (ModuleThrew e) = Exited 1"
| "node_process (IifeRejected e) = Exited 1"
| "node_process IifePending = Running"
| "node_process IifeResolved = Running"

section \<open>The target pipeline\<close>

text \<open>
  The driver hands the block subscriptions to \<open>target.processBlocks\<close> and subscribes to
  what it returns. The class \<open>Target\<close> (\<open>./target\<close>) and the blocks a \<open>Source\<close> emits
  (\<open>./source\<close>) are not among the source files; the definitions of this section follow
  the specification of the pipeline, sentence by sentence.
\<close>

type_synonym byte = "8 word"

text \<open>
  Modelled from the spec: the Block a Source emits (\<open>./source\<close> is missing). "Attributes:
  sourceId, height or hash, payload (raw bytes extracted from the block)."
\<close>

record block =
  sourceId :: string
  height :: nat
  payload :: "byte list"

text \<open>
  Modelled from the spec: the SubmissionRequest Target builds (\<open>./target\<close> is missing).
  "Attributes: target extrinsic call identifier (fixed: put data object), payload bytes,
  nonce."
\<close>

record submission_request =
  call :: string
  request_payload :: "byte list"
  nonce :: nat

text \<open>Modelled from the spec: a request signed by the Signer, as Target submits it.\<close>

record transaction =
  request :: submission_request
  signed_by :: signer

text \<open>
  Modelled from the spec: the target chain as Target sees it, which is the current nonce
  of the signer's account and the transactions of that account the chain has taken in,
  oldest first.
\<close>

record chain =
  account_nonce :: nat
  submitted :: "transaction list"

text \<open>
  Modelled from the spec: what awaiting inclusion ends with (step 5 of \<open>processBlocks\<close>).
  "On success emit a SubmissionResult; on failure, classify and either retry (transient) or
  surface as a terminal error for that Block."
\<close>

datatype status = Included | Transient | Terminal

text \<open>Modelled from the spec: the element of the sequence \<open>processBlocks\<close> returns.\<close>

datatype submission_result = Succeeded block transaction | Failed block

text \<open>
  Modelled from the spec: step 1 of \<open>processBlocks\<close>, "build a SubmissionRequest from
  block.payload using the fixed put data object call", with the nonce of step 2.
\<close>

definition build_request :: "block \<Rightarrow> nat \<Rightarrow> submission_request" where
  "build_request b n = \<lparr>call = ''put data object'', request_payload = payload b, nonce = n\<rparr>"

text \<open>Modelled from the spec: step 3 of \<open>processBlocks\<close>, "sign the request with Signer".\<close>

definition sign :: "signer \<Rightarrow> submission_request \<Rightarrow> transaction" where
  "sign kp req = \<lparr>request = req, signed_by = kp\<rparr>"

text \<open>
  Modelled from the spec: the target chain taking a transaction in. The nonce is "a
  per-account strictly increasing counter": the account's nonce moves on by one.
\<close>

definition include_tx :: "transaction \<Rightarrow> chain \<Rightarrow> chain" where
  "include_tx tx c = \<lparr>account_nonce = Suc (account_nonce c), submitted = submitted c @ [tx]\<rparr>"

text \<open>
  Modelled from the spec: the submission worker of Target. "A single worker loop dequeues,
  signs, submits, and confirms one at a time before advancing to the next." For each
  block it fetches the account's current nonce, builds and signs the request and submits
  it; the chain's answer is the next one of \<open>answers\<close>. An included transaction is on the
  chain and the block's result is emitted; a transient failure leaves the chain as it was
  and the same block is tried again "by re-fetching nonce and resubmitting"; a terminal
  failure is "surfaced as a failure result for that Block only; pipeline continues with
  subsequent Blocks". The spec bounds the retries by no number. When the answers end, the
  worker waits: nothing more is emitted. Only what the chain has taken in is kept here,
  and no connection drops after the chain took a transaction in; \<open>worker_log\<close> below keeps
  every submission and has that case too.
\<close>

fun worker :: "signer \<Rightarrow> status list \<Rightarrow> block list \<Rightarrow> chain \<Rightarrow> submission_result list \<times> chain" where
  "worker kp answers [] c = ([], c)"
| "worker kp [] (b # bs) c = ([], c)"
| "worker kp (Included # answers) (b # bs) c =
     (let tx = sign kp (build_request b (account_nonce c))
      in case worker kp answers bs (include_tx tx c) of (rs, c') \<Rightarrow> (Succeeded b tx # rs, c'))"
| "worker kp (Transient # answers) (b # bs) c = worker kp answers (b # bs) c"
| "worker kp (Terminal # answers) (b # bs) c =
     (case worker kp answers bs c of (rs, c') \<Rightarrow> (Failed b # rs, c'))"

text \<open>
  Modelled from the spec: how a submitted transaction fares, at the chain and as Target
  sees it (\<open>./target\<close> is missing). Section 7 counts "connection drop mid-submission,
  nonce-too-low, temporary node rejection" as transient and does not say whether the
  chain has taken in a transaction whose connection dropped, so both cases are here:
  \<open>TakenIn\<close>, the chain takes the transaction in and Target sees the inclusion;
  \<open>NotTaken\<close>, the chain does not take it in and Target sees a transient failure;
  \<open>TakenUnseen\<close>, the chain takes it in, the connection drops and Target sees a transient
  failure; \<open>Refused\<close>, the chain does not take it in and the failure is terminal.
\<close>

datatype answer = TakenIn | NotTaken | TakenUnseen | Refused

text \<open>
  Modelled from the spec: the submission worker, with a log of all it submits. Steps 1 to
  4 of \<open>processBlocks\<close> (build, fetch the nonce, sign, submit) are run at every attempt, so
  every attempt is a signed transaction submitted to the target chain; the log holds, for
  each, the block, the transaction and whether the chain took it in. After a transient
  failure the same block is tried again with the nonce fetched anew.
\<close>

fun worker_log ::
  "signer \<Rightarrow> answer list \<Rightarrow> block list \<Rightarrow> chain
     \<Rightarrow> submission_result list \<times> chain \<times> (block \<times> transaction \<times> bool) list" where
  "worker_log kp ans [] c = ([], c, [])"
| "worker_log kp [] (b # bs) c = ([], c, [])"
| "worker_log kp (TakenIn # ans) (b # bs) c =
     (let tx = sign kp (build_request b (account_nonce c))
      in case worker_log kp ans bs (include_tx tx c) of
           (rs, c', log) \<Rightarrow> (Succeeded b tx # rs, c', (b, tx, True) # log))"
| "worker_log kp (NotTaken # ans) (b # bs) c =
     (let tx = sign kp (build_request b (account_nonce c))
      in case worker_log kp ans (b # bs) c of
           (rs, c', log) \<Rightarrow> (rs, c', (b, tx, False) # log))"
| "worker_log kp (TakenUnseen # ans) (b # bs) c =
     (let tx = sign kp (build_request b (account_nonce c))
      in case worker_log kp ans (b # bs) (include_tx tx c) of
           (rs, c', log) \<Rightarrow> (rs, c', (b, tx, True) # log))"
| "worker_log kp (Refused # ans) (b # bs) c =
     (let tx = sign kp (build_request b (account_nonce c))
      in case worker_log kp ans bs c of
           (rs, c', log) \<Rightarrow> (Failed b # rs, c', (b, tx, False) # log))"

text \<open>The answers under which no connection drops: there the worker with the log is \<open>worker\<close>.\<close>

fun seen_as :: "status \<Rightarrow> answer" where
  "seen_as Included = TakenIn"
| "seen_as Transient = NotTaken"
| "seen_as Terminal = Refused"

text \<open>
  Modelled from the spec: the merge stage of \<open>processBlocks\<close>. "Merge policy: arrival order
  across sources." The arrivals list, one after the other, the index of the sequence whose
  next block arrives; each block is paired with the index of its sequence.
\<close>

fun merge_arrivals :: "nat list \<Rightarrow> 'a list list \<Rightarrow> (nat \<times> 'a) list" where
  "merge_arrivals [] seqs = []"
| "merge_arrivals (i # arrivals) seqs =
     (if i < length seqs then
        (case seqs ! i of
           [] \<Rightarrow> merge_arrivals arrivals seqs
         | b # bs \<Rightarrow> (i, b) # merge_arrivals arrivals (seqs[i := bs]))
      else merge_arrivals arrivals seqs)"

text \<open>
  Modelled from the spec: the sequence \<open>processBlocks\<close> returns, "a cold, lazily-started
  pipeline": the target and the sequences it will merge, and nothing run yet.
\<close>

datatype pipeline = Merged target "block_subscription list"

text \<open>
  Modelled from the spec: what the pipeline meets once it runs, which is the blocks each
  subscription emits, the order in which they arrive and the answers of the target chain.
\<close>

record world =
  emitted :: "block_subscription \<Rightarrow> block list"
  arrivals :: "nat list"
  answers :: "status list"

text \<open>
  Modelled from the spec: \<open>Target.processBlocks\<close> (\<open>./target\<close> is missing). "This operation
  does not itself start execution; it only constructs the merged/transformed sequence."
  The target chain is passed through, so that what the call does to it can be stated.
\<close>

definition processBlocks :: "target \<Rightarrow> block_subscription list \<Rightarrow> chain \<Rightarrow> pipeline \<times> chain" where
  "processBlocks t subs c = (Merged t subs, c)"

text \<open>
  Modelled from the spec: driving the returned sequence. "Execution begins when the returned
  sequence is driven (subscribed to) by the caller": the sequences are merged in arrival
  order and the worker takes the merged blocks one at a time.
\<close>

fun subscribe :: "world \<Rightarrow> pipeline \<Rightarrow> chain \<Rightarrow> submission_result list \<times> chain" where
  "subscribe w (Merged t subs) c =
     worker (target_signer t) (answers w)
       (map snd (merge_arrivals (arrivals w) (map (emitted w) subs))) c"

text \<open>
  What the calls of the driver do to the target chain: \<open>processBlocks\<close> yields the pipeline,
  \<open>subscribe\<close> drives the pipeline yielded before, and no other call of the driver reaches
  the target chain.
\<close>

fun perform :: "world \<Rightarrow> pipeline option \<times> chain \<Rightarrow> event \<Rightarrow> pipeline option \<times> chain" where
  "perform w (p, c) (EvProcessBlocks t subs) =
     (case processBlocks t subs c of (p', c') \<Rightarrow> (Some p', c'))"
| "perform w (Some p, c) EvSubscribe = (Some p, snd (subscribe w p c))"
| "perform w (p, c) ev = (p, c)"

definition target_chain_after :: "world \<Rightarrow> event list \<Rightarrow> chain \<Rightarrow> chain" where
  "target_chain_after w evs c = snd (foldl (perform w) (None, c) evs)"

section \<open>What a run is compared with\<close>

text \<open>
  \<open>interleaving xss zs\<close>: the list \<open>zs\<close> takes, at each position, the next element of
  one of the lists \<open>xss\<close>, and uses all of them up.
\<close>

fun interleaving :: "'a list list \<Rightarrow> 'a list \<Rightarrow> bool" where
  "interleaving xss [] = list_all (\<lambda>xs. xs = []) xss"
| "interleaving xss (z # zs) =
     list_ex (\<lambda>i. case xss ! i of [] \<Rightarrow> False | x # xs \<Rightarrow> x = z \<and> interleaving (xss[i := xs]) zs)
       [0..<length xss]"

text \<open>The calls a task still makes when nothing fails, and the source it then resolves to.\<close>

fun remaining :: "env \<Rightarrow> task \<Rightarrow> event list" where
  "remaining en (AwaitCreateApi u) =
     (case createApi en u None of
        Inl e \<Rightarrow> []
      | Inr a \<Rightarrow> EvSystemChain a # (case systemChain en a of Inl e \<Rightarrow> [] | Inr c \<Rightarrow> [EvNewSource a c]))"
| "remaining en (AwaitChain a) =
     (case systemChain en a of Inl e \<Rightarrow> [] | Inr c \<Rightarrow> [EvNewSource a c])"
| "remaining en (Fulfilled s) = []"

fun final_source :: "env \<Rightarrow> task \<Rightarrow> source option" where
  "final_source en (AwaitCreateApi u) =
     (case createApi en u None of
        Inl e \<Rightarrow> None
      | Inr a \<Rightarrow> (case systemChain en a of Inl e \<Rightarrow> None
                   | Inr c \<Rightarrow> Some \<lparr>source_api = a, source_chain = c\<rparr>))"
| "final_source en (AwaitChain a) =
     (case systemChain en a of Inl e \<Rightarrow> None | Inr c \<Rightarrow> Some \<lparr>source_api = a, source_chain = c\<rparr>)"
| "final_source en (Fulfilled s) = Some s"

text \<open>The number of awaits a task has before it.\<close>

fun awaits :: "task \<Rightarrow> nat" where
  "awaits (AwaitCreateApi u) = 2"
| "awaits (AwaitChain a) = 1"
| "awaits (Fulfilled s) = 0"

text \<open>The two calls made for one source: the identity query on its handle, then its construction.\<close>

definition source_events :: "source \<Rightarrow> event list" where
  "source_events s = [EvSystemChain (source_api s), EvNewSource (source_api s) (source_chain s)]"

text \<open>Kinds of calls.\<close>

fun source_connection :: "event \<Rightarrow> bool" where
  "source_connection (EvCreateApi u None) = True"
| "source_connection _ = False"

fun source_construction :: "event \<Rightarrow> bool" where
  "source_construction (EvNewSource a c) = True"
| "source_construction _ = False"

fun source_call :: "event \<Rightarrow> bool" where
  "source_call (EvSystemChain a) = True"
| "source_call (EvNewSource a c) = True"
| "source_call _ = False"

fun pipeline_call :: "event \<Rightarrow> bool" where
  "pipeline_call (EvSubscribeBlocks s) = True"
| "pipeline_call (EvProcessBlocks t subs) = True"
| "pipeline_call EvSubscribe = True"
| "pipeline_call _ = False"

text \<open>The block a result is about, and the blocks that made it onto the chain with their transactions.\<close>

fun result_block :: "submission_result \<Rightarrow> block" where
  "result_block (Succeeded b tx) = b"
| "result_block (Failed b) = b"

fun succeeded :: "submission_result list \<Rightarrow> (block \<times> transaction) list" where
  "succeeded [] = []"
| "succeeded (Succeeded b tx # rs) = (b, tx) # succeeded rs"
| "succeeded (Failed b # rs) = succeeded rs"

definition tx_nonce :: "transaction \<Rightarrow> nat" where
  "tx_nonce tx = nonce (request tx)"




text \<open>The blocks of a merged stream that came from sequence \<open>i\<close>, and the sequences with each block paired with its index.\<close>

definition from_source :: "nat \<Rightarrow> (nat \<times> 'a) list \<Rightarrow> 'a list" where
  "from_source i zs = map snd (filter (\<lambda>z. fst z = i) zs)"

definition tagged :: "'a list list \<Rightarrow> (nat \<times> 'a) list list" where
  "tagged seqs = map (\<lambda>i. map (Pair i) (seqs ! i)) [0..<length seqs]"

section \<open>Example environments\<close>

definition cfg_ab :: config where
  "cfg_ab = \<lparr>targetChainUrl = ''ws://target'', sourceChainUrls = [''ws://a'', ''ws://b''],
     accountSeed = ''//Alice''\<rparr>"

definition env_ok :: env where
  "env_ok = \<lparr>loadConfig = Inr cfg_ab, wsConnect = (\<lambda>u tys. None),
     systemChain = (\<lambda>a. Inr (''chain of '' @ provider a)),
     getAccount = (\<lambda>seed. Inr (KeyringPair seed))\<rparr>"

definition env_b_down :: env where
  "env_b_down =
     env_ok\<lparr>wsConnect := (\<lambda>u tys. if u = ''ws://b'' then Some (Error ''unreachable'') else None)\<rparr>"

definition env_target_down :: env where
  "env_target_down =
     env_ok\<lparr>wsConnect := (\<lambda>u tys. if u = ''ws://target'' then Some (Error ''unreachable'') else None)\<rparr>"

definition env_bad_seed :: env where
  "env_bad_seed = env_ok\<lparr>getAccount := (\<lambda>seed. Inl (Error ''invalid seed''))\<rparr>"

definition env_no_sources :: env where
  "env_no_sources = env_ok\<lparr>loadConfig := Inr (cfg_ab\<lparr>sourceChainUrls := []\<rparr>)\<rparr>"

definition blk :: "string \<Rightarrow> nat \<Rightarrow> block" where
  "blk s h = \<lparr>sourceId = s, height = h, payload = [word_of_nat h]\<rparr>"

definition chain0 :: chain where
  "chain0 = \<lparr>account_nonce = 7, submitted = []\<rparr>"

definition seqs_ab :: "block list list" where
  "seqs_ab = [[blk ''a'' 1, blk ''a'' 2, blk ''a'' 3], [blk ''b'' 1, blk ''b'' 2]]"

definition source_a :: source where
  "source_a = \<lparr>source_api = \<lparr>provider = ''ws://a'', registry = None\<rparr>, source_chain = ''chain of ws://a''\<rparr>"

definition source_b :: source where
  "source_b = \<lparr>source_api = \<lparr>provider = ''ws://b'', registry = None\<rparr>, source_chain = ''chain of ws://b''\<rparr>"

definition target_t :: target where
  "target_t = \<lparr>target_api = \<lparr>provider = ''ws://target'', registry = Some types\<rparr>,
     target_signer = KeyringPair ''//Alice''\<rparr>"

definition world_ab :: world where
  "world_ab = \<lparr>emitted = (\<lambda>sub. if sub = BlocksOf source_a then seqs_ab ! 0
                            else if sub = BlocksOf source_b then seqs_ab ! 1 else []),
     arrivals = [0, 1, 1, 0, 0],
     answers = [Included, Transient, Included, Terminal, Included, Included]\<rparr>"

section \<open>Properties of the driver\<close>

subsection \<open>\<open>Promise.all\<close> over the source connections\<close>

lemma interleavingI:
  "i < length xss \<Longrightarrow> xss ! i = z # xs \<Longrightarrow> interleaving (xss[i := xs]) zs \<Longrightarrow> interleaving xss (z # zs)"
  by (auto simp: list_ex_iff intro!: bexI[of _ i])

lemma settled_Some_iff: "settled ts = Some ss \<longleftrightarrow> ts = map Fulfilled ss"
proof (induction ts arbitrary: ss rule: settled.induct)
  case 1 then show ?case by auto
next
  case (2 s ts) then show ?case by (cases ss) auto
next
  case (3 v ts) then show ?case by (cases ss) auto
next
  case (4 v ts) then show ?case by (cases ss) auto
qed

lemma resume_final:
  "resume en t = Continues t' evs \<Longrightarrow> final_source en t' = final_source en t"
  by (cases t) (auto split: sum.splits)

lemma resume_remaining:
  "resume en t = Continues t' evs \<Longrightarrow> final_source en t \<noteq> None \<Longrightarrow> remaining en t = evs @ remaining en t'"
  by (cases t) (auto split: sum.splits)

lemma resume_events:
  "resume en t = Continues t' evs \<Longrightarrow> evs = [] \<and> t' = t \<or> (\<exists>ev. evs = [ev])"
  by (cases t) (auto split: sum.splits)

text \<open>When \<open>Promise.all\<close> resolves, its values are those of the tasks, position by position.\<close>

lemma promise_all_resolved:
  "promise_all en sched ts = (evs, Resolved ss) \<Longrightarrow> map (final_source en) ts = map Some ss"
proof (induction sched arbitrary: ts evs)
  case Nil
  then show ?case by (auto split: option.splits simp: settled_Some_iff)
next
  case (Cons i sched)
  show ?case
  proof (cases "settled ts")
    case (Some ss')
    with Cons.prems show ?thesis by (auto simp: settled_Some_iff)
  next
    case None
    show ?thesis
    proof (cases "i < length ts")
      case False
      with None Cons show ?thesis by simp
    next
      case True
      with None Cons.prems obtain t e1 e2 where
        r: "resume en (ts ! i) = Continues t e1" and
        p: "promise_all en sched (ts[i := t]) = (e2, Resolved ss)"
        by (auto split: resumed.splits prod.splits)
      from Cons.IH[OF p] have "map (final_source en) (ts[i := t]) = map Some ss" .
      moreover have "map (final_source en) (ts[i := t]) = map (final_source en) ts"
        using resume_final[OF r] True by (simp add: map_update list_update_same_conv)
      ultimately show ?thesis by simp
    qed
  qed
qed

text \<open>And the calls made meanwhile are those of the tasks, each task's in its own order.\<close>

lemma promise_all_interleaving:
  "promise_all en sched ts = (evs, Resolved ss) \<Longrightarrow> interleaving (map (remaining en) ts) evs"
proof (induction sched arbitrary: ts evs)
  case Nil
  then show ?case by (auto split: option.splits simp: settled_Some_iff list_all_iff)
next
  case (Cons i sched)
  show ?case
  proof (cases "settled ts")
    case (Some ss')
    with Cons.prems show ?thesis by (auto simp: settled_Some_iff list_all_iff)
  next
    case None
    show ?thesis
    proof (cases "i < length ts")
      case False
      with None Cons show ?thesis by simp
    next
      case True
      with None Cons.prems obtain t e1 e2 where
        r: "resume en (ts ! i) = Continues t e1" and
        p: "promise_all en sched (ts[i := t]) = (e2, Resolved ss)" and
        evs: "evs = e1 @ e2"
        by (auto split: resumed.splits prod.splits)
      from Cons.IH[OF p] have ih: "interleaving (map (remaining en) (ts[i := t])) e2" .
      from promise_all_resolved[OF p] True have "final_source en t \<noteq> None"
        by (metis length_list_update length_map nth_list_update_eq nth_map option.distinct(1))
      then have fs: "final_source en (ts ! i) \<noteq> None"
        using resume_final[OF r] by simp
      from resume_events[OF r] show ?thesis
      proof
        assume "e1 = [] \<and> t = ts ! i"
        with ih evs show ?thesis by (simp add: list_update_same_conv)
      next
        assume "\<exists>ev. e1 = [ev]"
        then obtain ev where ev: "e1 = [ev]" ..
        have rem: "remaining en (ts ! i) = ev # remaining en t"
          using resume_remaining[OF r fs] ev by simp
        have "interleaving (map (remaining en) ts) (ev # e2)"
        proof (rule interleavingI[where i = i and xs = "remaining en t"])
          show "i < length (map (remaining en) ts)" using True by simp
          show "map (remaining en) ts ! i = ev # remaining en t" using True rem by simp
          show "interleaving ((map (remaining en) ts)[i := remaining en t]) e2"
            using ih by (simp add: map_update)
        qed
        with evs ev show ?thesis by simp
      qed
    qed
  qed
qed

lemma resume_awaits:
  "resume en t = Continues t' evs \<Longrightarrow> awaits t' = awaits t - 1"
  by (cases t) (auto split: sum.splits)

lemma resume_not_rejects:
  "final_source en t \<noteq> None \<Longrightarrow> \<exists>t' evs. resume en t = Continues t' evs"
  by (cases t) (auto split: sum.splits)

lemma settled_None_awaits: "settled ts = None \<Longrightarrow> \<exists>i<length ts. 0 < awaits (ts ! i)"
proof (induction ts rule: settled.induct)
  case 1 then show ?case by simp
next
  case (2 s ts)
  then obtain i where "i < length ts" "0 < awaits (ts ! i)" by auto
  then have "Suc i < length (Fulfilled s # ts) \<and> 0 < awaits ((Fulfilled s # ts) ! Suc i)" by simp
  then show ?case by blast
next
  case (3 v ts)
  have "0 < length (AwaitCreateApi v # ts) \<and> 0 < awaits ((AwaitCreateApi v # ts) ! 0)" by simp
  then show ?case by blast
next
  case (4 v ts)
  have "0 < length (AwaitChain v # ts) \<and> 0 < awaits ((AwaitChain v # ts) ! 0)" by simp
  then show ?case by blast
qed

text \<open>Progress: when no call fails and every task is resumed as often as it awaits, all resolve.\<close>

lemma promise_all_progress:
  "\<forall>i<length ts. final_source en (ts ! i) \<noteq> None \<and> awaits (ts ! i) \<le> count_list sched i
   \<Longrightarrow> \<exists>evs ss. promise_all en sched ts = (evs, Resolved ss)"
proof (induction sched arbitrary: ts)
  case Nil
  then have "settled ts \<noteq> None" using settled_None_awaits[of ts] by fastforce
  then show ?case by auto
next
  case (Cons i sched)
  show ?case
  proof (cases "settled ts")
    case (Some ss)
    then show ?thesis by simp
  next
    case None
    show ?thesis
    proof (cases "i < length ts")
      case False
      have "\<forall>j<length ts. final_source en (ts ! j) \<noteq> None \<and> awaits (ts ! j) \<le> count_list sched j"
        using Cons.prems False by auto
      from Cons.IH[OF this] None False show ?thesis by simp
    next
      case True
      with Cons.prems have "final_source en (ts ! i) \<noteq> None" by blast
      from resume_not_rejects[OF this] obtain t e1 where r: "resume en (ts ! i) = Continues t e1"
        by blast
      have "\<forall>j<length (ts[i := t]).
              final_source en (ts[i := t] ! j) \<noteq> None \<and> awaits (ts[i := t] ! j) \<le> count_list sched j"
      proof (intro allI impI)
        fix j assume j: "j < length (ts[i := t])"
        show "final_source en (ts[i := t] ! j) \<noteq> None \<and> awaits (ts[i := t] ! j) \<le> count_list sched j"
        proof (cases "j = i")
          case True
          with j Cons.prems resume_final[OF r] resume_awaits[OF r] show ?thesis
            by (auto simp: le_diff_conv)
        next
          case False
          with j Cons.prems show ?thesis by auto
        qed
      qed
      from Cons.IH[OF this] obtain e2 ss where "promise_all en sched (ts[i := t]) = (e2, Resolved ss)"
        by blast
      with None True r show ?thesis by simp
    qed
  qed
qed

text \<open>A task whose connection fails keeps \<open>Promise.all\<close> from resolving, and rejects it once the failure arrives.\<close>

lemma promise_all_failing:
  assumes "i < length ts" "ts ! i = AwaitCreateApi u" "wsConnect en u None = Some e"
  shows "(\<forall>ss. snd (promise_all en sched ts) \<noteq> Resolved ss) \<and>
         (i \<in> set sched \<longrightarrow> (\<exists>e'. snd (promise_all en sched ts) = Rejected e'))"
  using assms
proof (induction sched arbitrary: ts)
  case Nil
  have "settled ts = None"
  proof (cases "settled ts")
    case (Some ss)
    then have "ts = map Fulfilled ss" by (simp add: settled_Some_iff)
    with Nil show ?thesis by auto
  qed simp
  then show ?case by simp
next
  case (Cons j sched)
  have none: "settled ts = None"
  proof (cases "settled ts")
    case (Some ss)
    then have "ts = map Fulfilled ss" by (simp add: settled_Some_iff)
    with Cons.prems show ?thesis by auto
  qed simp
  show ?case
  proof (cases "j < length ts")
    case False
    with Cons.prems have "j \<noteq> i" by auto
    with Cons.IH[OF Cons.prems] none False show ?thesis by simp
  next
    case True
    show ?thesis
    proof (cases "j = i")
      case True
      with Cons.prems none show ?thesis by (simp add: createApi_def)
    next
      case False
      show ?thesis
      proof (cases "resume en (ts ! j)")
        case (Rejects e')
        with none True show ?thesis by simp
      next
        case (Continues t e1)
        have "i < length (ts[j := t])" "ts[j := t] ! i = AwaitCreateApi u"
          using Cons.prems False by auto
        from Cons.IH[OF this Cons.prems(3)] none True Continues False show ?thesis
          by (auto split: prod.splits)
      qed
    qed
  qed
qed

text \<open>\<open>Promise.all\<close> makes identity queries and constructs sources, nothing else.\<close>

lemma resume_calls:
  "resume en t = Continues t' evs \<Longrightarrow>
   list_all source_call evs"
  by (cases t) (auto split: sum.splits)

lemma promise_all_calls:
  "list_all source_call (fst (promise_all en sched ts))"
proof (induction sched arbitrary: ts)
  case Nil
  then show ?case by (simp split: option.splits)
next
  case (Cons i sched)
  show ?case
  proof (cases "settled ts = None \<and> i < length ts")
    case False
    then show ?thesis using Cons.IH[of ts] by (auto split: option.splits)
  next
    case True
    show ?thesis
    proof (cases "resume en (ts ! i)")
      case (Rejects e)
      with True show ?thesis by simp
    next
      case (Continues t e1)
      obtain e2 r where p: "promise_all en sched (ts[i := t]) = (e2, r)" by (cases "promise_all en sched (ts[i := t])")
      from Cons.IH[of "ts[i := t]"] p resume_calls[OF Continues] True Continues
      show ?thesis by simp
    qed
  qed
qed

lemma source_call_only:
  "source_call ev \<Longrightarrow> \<not> pipeline_call ev \<and> \<not> source_connection ev \<and> (\<forall>a kp. ev \<noteq> EvNewTarget a kp)"
  by (cases ev) auto

lemma final_source_callback:
  "final_source en (AwaitCreateApi u) = Some s \<Longrightarrow>
   remaining en (AwaitCreateApi u) = source_events s \<and>
   source_api s = \<lparr>provider = u, registry = None\<rparr> \<and>
   systemChain en (source_api s) = Inr (source_chain s)"
  by (auto simp: source_events_def createApi_def split: sum.splits option.splits)

lemma relay_unfold:
  "relay en sched cfg targetApi kp =
     (case promise_all en sched (map AwaitCreateApi (sourceChainUrls cfg)) of
        (evs, r) \<Rightarrow>
          (EvNewTarget targetApi kp # map (\<lambda>u. EvCreateApi u None) (sourceChainUrls cfg) @ evs
             @ (case r of Resolved sources \<Rightarrow>
                  map EvSubscribeBlocks sources
                    @ [EvProcessBlocks \<lparr>target_api = targetApi, target_signer = kp\<rparr> (map BlocksOf sources),
                       EvSubscribe]
                | _ \<Rightarrow> []),
           (case r of Resolved sources \<Rightarrow> IifeResolved | Rejected e \<Rightarrow> IifeRejected e
            | Pending \<Rightarrow> IifePending)))"
  by (simp add: relay_def Let_def split: prod.splits promise.splits)

lemma main_unfold:
  "main en sched =
     (case loadConfig en of
        Inl e \<Rightarrow> ([EvLoadConfig], ModuleThrew e)
      | Inr cfg \<Rightarrow>
          (case createApi en (targetChainUrl cfg) (Some types) of
             Inl e \<Rightarrow>
               ([EvLoadConfig, EvCreateApi (targetChainUrl cfg) (Some types)], IifeRejected e)
           | Inr targetApi \<Rightarrow>
               (case getAccount en (accountSeed cfg) of
                  Inl e \<Rightarrow>
                    ([EvLoadConfig, EvCreateApi (targetChainUrl cfg) (Some types),
                      EvGetAccount (accountSeed cfg)], IifeRejected e)
                | Inr kp \<Rightarrow>
                    (case relay en sched cfg targetApi kp of
                       (evs, out) \<Rightarrow>
                         (EvLoadConfig # EvCreateApi (targetChainUrl cfg) (Some types)
                            # EvGetAccount (accountSeed cfg) # evs, out)))))"
  by (simp add: main_def startup_def split: sum.splits)

subsection \<open>The source phase of a run\<close>

lemma promise_all_sources:
  assumes "promise_all en sched (map AwaitCreateApi urls) = (evs, Resolved ss)"
  shows "length ss = length urls \<and>
         (\<forall>i<length urls. source_api (ss ! i) = \<lparr>provider = urls ! i, registry = None\<rparr> \<and>
              systemChain en (source_api (ss ! i)) = Inr (source_chain (ss ! i))) \<and>
         interleaving (map source_events ss) evs"
proof -
  from promise_all_resolved[OF assms]
  have m: "map (final_source en) (map AwaitCreateApi urls) = map Some ss" .
  then have len: "length ss = length urls" by (metis length_map)
  have fin: "final_source en (AwaitCreateApi (urls ! i)) = Some (ss ! i)" if "i < length urls" for i
  proof -
    have "map (final_source en) (map AwaitCreateApi urls) ! i = map Some ss ! i" using m by simp
    with that len show ?thesis by simp
  qed
  have "map (remaining en) (map AwaitCreateApi urls) = map source_events ss"
    using len fin final_source_callback by (auto simp: list_eq_iff_nth_eq)
  with promise_all_interleaving[OF assms] have "interleaving (map source_events ss) evs" by simp
  with len fin final_source_callback show ?thesis by blast
qed

lemma main_subscribe_last:
  "EvSubscribe \<notin> set (butlast (fst (main en sched)))"
proof -
  have *: "EvSubscribe \<notin> set evs" if "promise_all en sch ts = (evs, r)" for sch ts evs r
    using promise_all_calls[of en sch ts] that by (auto simp: list_all_iff)
  have "\<exists>pre. EvSubscribe \<notin> set pre \<and>
          (fst (main en sched) = pre \<or> fst (main en sched) = pre @ [EvSubscribe])"
  proof (cases "snd (main en sched) = IifeResolved")
    case False
    then have "EvSubscribe \<notin> set (fst (main en sched))"
      using * by (auto simp: main_unfold relay_unfold split: sum.splits prod.splits promise.splits)
    then show ?thesis by blast
  next
    case True
    then obtain cfg targetApi kp where
      l: "loadConfig en = Inr cfg" and
      t: "createApi en (targetChainUrl cfg) (Some types) = Inr targetApi" and
      k: "getAccount en (accountSeed cfg) = Inr kp"
      by (auto simp: main_unfold split: sum.splits)
    obtain evs r where p: "promise_all en sched (map AwaitCreateApi (sourceChainUrls cfg)) = (evs, r)"
      by (cases "promise_all en sched (map AwaitCreateApi (sourceChainUrls cfg))")
    from True l t k p obtain ss where r: "r = Resolved ss"
      by (cases r) (auto simp: main_unfold relay_unfold)
    have "fst (main en sched) =
         ([EvLoadConfig, EvCreateApi (targetChainUrl cfg) (Some types), EvGetAccount (accountSeed cfg),
           EvNewTarget targetApi kp] @ map (\<lambda>u. EvCreateApi u None) (sourceChainUrls cfg) @ evs
           @ map EvSubscribeBlocks ss
           @ [EvProcessBlocks \<lparr>target_api = targetApi, target_signer = kp\<rparr> (map BlocksOf ss)])
         @ [EvSubscribe]"
      using l t k p r by (simp add: main_unfold relay_unfold)
    moreover have "EvSubscribe \<notin> set
        ([EvLoadConfig, EvCreateApi (targetChainUrl cfg) (Some types), EvGetAccount (accountSeed cfg),
           EvNewTarget targetApi kp] @ map (\<lambda>u. EvCreateApi u None) (sourceChainUrls cfg) @ evs
           @ map EvSubscribeBlocks ss
           @ [EvProcessBlocks \<lparr>target_api = targetApi, target_signer = kp\<rparr> (map BlocksOf ss)])"
      using *[OF p] by auto
    ultimately show ?thesis by blast
  qed
  then obtain pre where pre: "EvSubscribe \<notin> set pre" and
    c: "fst (main en sched) = pre \<or> fst (main en sched) = pre @ [EvSubscribe]" by blast
  from c show ?thesis
  proof
    assume "fst (main en sched) = pre"
    with pre show ?thesis by (auto dest: in_set_butlastD)
  next
    assume "fst (main en sched) = pre @ [EvSubscribe]"
    with pre show ?thesis by (simp add: butlast_append)
  qed
qed

section \<open>Properties of the target pipeline\<close>


lemma worker_log_worker:
  "worker kp sts bs c = (case worker_log kp (map seen_as sts) bs c of (rs, c', log) \<Rightarrow> (rs, c'))"
  by (induction kp sts bs c rule: worker.induct) (auto simp: Let_def split: prod.splits)



lemma from_source_merge:
  "i < length seqs \<Longrightarrow> prefix (from_source i (merge_arrivals arr seqs)) (seqs ! i)"
proof (induction arr arbitrary: seqs)
  case Nil
  then show ?case by (simp add: from_source_def)
next
  case (Cons j arr)
  show ?case
  proof (cases "j < length seqs")
    case False
    with Cons show ?thesis by simp
  next
    case j: True
    show ?thesis
    proof (cases "seqs ! j")
      case Nil
      with j Cons show ?thesis by simp
    next
      case hd: (Cons b bs)
      have m: "merge_arrivals (j # arr) seqs = (j, b) # merge_arrivals arr (seqs[j := bs])"
        using j hd by simp
      have "i < length (seqs[j := bs])" using Cons.prems by simp
      from Cons.IH[OF this]
      have ih: "prefix (from_source i (merge_arrivals arr (seqs[j := bs]))) (seqs[j := bs] ! i)" .
      show ?thesis
      proof (cases "j = i")
        case True
        then have "seqs[j := bs] ! i = bs" using j by simp
        with ih have "prefix (b # from_source i (merge_arrivals arr (seqs[j := bs]))) (b # bs)"
          by simp
        moreover have "from_source i ((j, b) # merge_arrivals arr (seqs[j := bs]))
                       = b # from_source i (merge_arrivals arr (seqs[j := bs]))"
          using True by (simp add: from_source_def)
        ultimately show ?thesis using hd True unfolding m by simp
      next
        case False
        then have "seqs[j := bs] ! i = seqs ! i" by simp
        moreover have "from_source i ((j, b) # merge_arrivals arr (seqs[j := bs]))
                       = from_source i (merge_arrivals arr (seqs[j := bs]))"
          using False by (simp add: from_source_def)
        ultimately show ?thesis using ih unfolding m by simp
      qed
    qed
  qed
qed

lemma from_source_take: "prefix (from_source i (take k zs)) (from_source i zs)"
proof -
  have "from_source i zs = from_source i (take k zs) @ from_source i (drop k zs)"
    unfolding from_source_def by (metis append_take_drop_id filter_append map_append)
  then show ?thesis by (simp add: prefix_def)
qed

lemma tagged_update:
  "i < length seqs \<Longrightarrow> (tagged seqs)[i := map (Pair i) bs] = tagged (seqs[i := bs])"
proof (rule nth_equalityI)
  show "length ((tagged seqs)[i := map (Pair i) bs]) = length (tagged (seqs[i := bs]))"
    by (simp add: tagged_def)
next
  fix k assume "k < length ((tagged seqs)[i := map (Pair i) bs])"
  then have k: "k < length seqs" by (simp add: tagged_def)
  assume "i < length seqs"
  with k show "(tagged seqs)[i := map (Pair i) bs] ! k = tagged (seqs[i := bs]) ! k"
    by (cases "k = i") (simp_all add: tagged_def)
qed

lemma merge_complete:
  "interleaving (tagged seqs) zs \<Longrightarrow> merge_arrivals (map fst zs) seqs = zs"
proof (induction zs arbitrary: seqs)
  case Nil
  then show ?case by simp
next
  case (Cons z zs)
  from Cons.prems obtain i where i: "i < length (tagged seqs)" and
    c: "(case tagged seqs ! i of [] \<Rightarrow> False | x # xs \<Rightarrow> x = z \<and> interleaving ((tagged seqs)[i := xs]) zs)"
    by (auto simp: list_ex_iff)
  from i have il: "i < length seqs" by (simp add: tagged_def)
  then have ti: "tagged seqs ! i = map (Pair i) (seqs ! i)" by (simp add: tagged_def)
  from c ti obtain b bs where s: "seqs ! i = b # bs" and z: "z = (i, b)" and
    r: "interleaving ((tagged seqs)[i := map (Pair i) bs]) zs"
    by (cases "seqs ! i") auto
  from r have "interleaving (tagged (seqs[i := bs])) zs" by (simp add: tagged_update[OF il])
  from Cons.IH[OF this] il s z show ?case by simp
qed

lemma worker_submitted:
  "worker kp ans bs c = (rs, c') \<Longrightarrow>
   submitted c' = submitted c @ map snd (succeeded rs) \<and>
   list_all (\<lambda>(b, tx). \<exists>n. tx = sign kp (build_request b n)) (succeeded rs) \<and>
   map result_block rs = take (length rs) bs"
proof (induction kp ans bs c arbitrary: rs c' rule: worker.induct)
  case (1 kp answers c)
  then show ?case by simp
next
  case (2 kp b bs c)
  then show ?case by simp
next
  case (3 kp answers b bs c)
  let ?tx = "sign kp (build_request b (account_nonce c))"
  from "3.prems" obtain rs' where
    w: "worker kp answers bs (include_tx ?tx c) = (rs', c')" and rs: "rs = Succeeded b ?tx # rs'"
    by (auto simp: Let_def split: prod.splits)
  from "3.IH"[OF refl w] rs show ?case
    by (auto simp: include_tx_def)
next
  case (4 kp answers b bs c)
  then show ?case by simp
next
  case (5 kp answers b bs c)
  from "5.prems" obtain rs' where
    w: "worker kp answers bs c = (rs', c')" and rs: "rs = Failed b # rs'"
    by (auto split: prod.splits)
  from "5.IH"[OF w] rs show ?case by auto
qed

lemma perform_no_subscribe:
  "ev \<noteq> EvSubscribe \<Longrightarrow> snd (perform w st ev) = snd st"
  by (cases "(w, st, ev)" rule: perform.cases) (auto simp: processBlocks_def)

lemma foldl_perform_no_subscribe:
  "EvSubscribe \<notin> set evs \<Longrightarrow> snd (foldl (perform w) st evs) = snd st"
  by (induction evs arbitrary: st) (auto simp: perform_no_subscribe)

section \<open>The claims\<close>




text \<open>
  Claim C2. For each sequence \<open>i\<close>, whatever the arrivals: the blocks of the merged stream
  that came from sequence \<open>i\<close> are a prefix of that sequence, in its order; the worker
  takes the merged blocks in the merged order, so the blocks it has handled that came
  from sequence \<open>i\<close> are again a prefix of it, and the payloads it put on the chain follow
  the order of its successes. Across sequences nothing is imposed: every interleaving
  of the sequences is the merged stream of some arrivals.
\<close>

theorem per_source_order_preserved:
  assumes "i < length seqs"
  shows "prefix (from_source i (merge_arrivals arr seqs)) (seqs ! i) \<and>
         (\<forall>kp ans c rs c'. worker kp ans (map snd (merge_arrivals arr seqs)) c = (rs, c') \<longrightarrow>
            map result_block rs = map snd (take (length rs) (merge_arrivals arr seqs)) \<and>
            prefix (from_source i (take (length rs) (merge_arrivals arr seqs))) (seqs ! i) \<and>
            map (request_payload \<circ> request) (drop (length (submitted c)) (submitted c'))
              = map (payload \<circ> fst) (succeeded rs)) \<and>
         (\<forall>zs. interleaving (tagged seqs) zs \<longrightarrow> merge_arrivals (map fst zs) seqs = zs)"
proof (intro conjI allI impI)
  show "prefix (from_source i (merge_arrivals arr seqs)) (seqs ! i)"
    by (rule from_source_merge[OF assms])
next
  fix kp ans c rs c'
  assume w: "worker kp ans (map snd (merge_arrivals arr seqs)) c = (rs, c')"
  from worker_submitted[OF w] have
    1: "submitted c' = submitted c @ map snd (succeeded rs)" and
    2: "list_all (\<lambda>(b, tx). \<exists>n. tx = sign kp (build_request b n)) (succeeded rs)" and
    3: "map result_block rs = take (length rs) (map snd (merge_arrivals arr seqs))" by auto
  from 3 show "map result_block rs = map snd (take (length rs) (merge_arrivals arr seqs))"
    by (simp add: take_map)
  show "prefix (from_source i (take (length rs) (merge_arrivals arr seqs))) (seqs ! i)"
    using from_source_take[of i "length rs" "merge_arrivals arr seqs"] from_source_merge[OF assms, of arr]
    by (rule prefix_order.trans)
  from 2 have "map (request_payload \<circ> request \<circ> snd) (succeeded rs) = map (payload \<circ> fst) (succeeded rs)"
    by (auto simp: list_all_iff sign_def build_request_def)
  with 1 show "map (request_payload \<circ> request) (drop (length (submitted c)) (submitted c'))
              = map (payload \<circ> fst) (succeeded rs)" by simp
next
  fix zs assume "interleaving (tagged seqs) zs"
  then show "merge_arrivals (map fst zs) seqs = zs" by (rule merge_complete)
qed

theorem per_source_order_preserved_witness:
  "0 < length seqs_ab \<and>
   prefix (from_source 0 (merge_arrivals [0, 1, 1, 0] seqs_ab)) (seqs_ab ! 0) \<and>
   interleaving (tagged seqs_ab)
     [(1, blk ''b'' 1), (0, blk ''a'' 1), (0, blk ''a'' 2), (1, blk ''b'' 2), (0, blk ''a'' 3)] \<and>
   merge_arrivals [1, 0, 0, 1, 0] seqs_ab =
     [(1, blk ''b'' 1), (0, blk ''a'' 1), (0, blk ''a'' 2), (1, blk ''b'' 2), (0, blk ''a'' 3)] \<and>
   interleaving (tagged seqs_ab)
     [(0, blk ''a'' 1), (0, blk ''a'' 2), (0, blk ''a'' 3), (1, blk ''b'' 1), (1, blk ''b'' 2)] \<and>
   merge_arrivals [0, 0, 0, 1, 1] seqs_ab =
     [(0, blk ''a'' 1), (0, blk ''a'' 2), (0, blk ''a'' 3), (1, blk ''b'' 1), (1, blk ''b'' 2)]"
proof -
  have h: "0 < length seqs_ab" by code_simp
  have i1: "interleaving (tagged seqs_ab)
     [(1, blk ''b'' 1), (0, blk ''a'' 1), (0, blk ''a'' 2), (1, blk ''b'' 2), (0, blk ''a'' 3)]"
    by code_simp
  have i2: "interleaving (tagged seqs_ab)
     [(0, blk ''a'' 1), (0, blk ''a'' 2), (0, blk ''a'' 3), (1, blk ''b'' 1), (1, blk ''b'' 2)]"
    by code_simp
  note t = per_source_order_preserved[OF h, of "[0, 1, 1, 0]"]
  from t have p: "prefix (from_source 0 (merge_arrivals [0, 1, 1, 0] seqs_ab)) (seqs_ab ! 0)" by blast
  from t i1 have m1: "merge_arrivals (map fst
     [(1::nat, blk ''b'' 1), (0, blk ''a'' 1), (0, blk ''a'' 2), (1, blk ''b'' 2), (0, blk ''a'' 3)]) seqs_ab =
     [(1, blk ''b'' 1), (0, blk ''a'' 1), (0, blk ''a'' 2), (1, blk ''b'' 2), (0, blk ''a'' 3)]" by blast
  from t i2 have m2: "merge_arrivals (map fst
     [(0::nat, blk ''a'' 1), (0, blk ''a'' 2), (0, blk ''a'' 3), (1, blk ''b'' 1), (1, blk ''b'' 2)]) seqs_ab =
     [(0, blk ''a'' 1), (0, blk ''a'' 2), (0, blk ''a'' 3), (1, blk ''b'' 1), (1, blk ''b'' 2)]" by blast
  from h p i1 i2 m1 m2 show ?thesis by simp
qed

text \<open>
  Claim C3 says that one failing source connection prevents any Source from being
  constructed. It does not: the callbacks run side by side, and with the URLs \<open>ws://a\<close>
  and \<open>ws://b\<close>, when \<open>ws://a\<close> connects and answers its identity query before the
  failure of \<open>ws://b\<close> is delivered, the source of \<open>ws://a\<close> has been constructed when the
  async function rejects.
\<close>

theorem source_constructed_before_failure:
  "loadConfig env_b_down = Inr cfg_ab \<and>
   wsConnect env_b_down (sourceChainUrls cfg_ab ! 1) None = Some (Error ''unreachable'') \<and>
   main env_b_down [0, 0, 1] =
     ([EvLoadConfig,
       EvCreateApi ''ws://target'' (Some types),
       EvGetAccount ''//Alice'',
       EvNewTarget \<lparr>provider = ''ws://target'', registry = Some types\<rparr> (KeyringPair ''//Alice''),
       EvCreateApi ''ws://a'' None,
       EvCreateApi ''ws://b'' None,
       EvSystemChain \<lparr>provider = ''ws://a'', registry = None\<rparr>,
       EvNewSource \<lparr>provider = ''ws://a'', registry = None\<rparr> ''chain of ws://a''],
      IifeRejected (Error ''unreachable'')) \<and>
   source_construction (EvNewSource \<lparr>provider = ''ws://a'', registry = None\<rparr> ''chain of ws://a'')"
  by code_simp

text \<open>
  Claim C3, amended. If the connection to one of the configured source chains fails, the
  joint await never yields the sources: the async function does not resolve and neither
  \<open>subscribeBlocks\<close> nor \<open>processBlocks\<close> nor \<open>subscribe\<close> is ever called. Once that failure
  is delivered the async function has rejected and the process ends with exit code 1.
  (Sources of other URLs may have been constructed by then.)
\<close>

theorem source_failure_blocks_pipeline:
  assumes "loadConfig en = Inr cfg"
    and "i < length (sourceChainUrls cfg)"
    and "wsConnect en (sourceChainUrls cfg ! i) None = Some e"
  shows "snd (main en sched) \<noteq> IifeResolved \<and>
         list_all (\<lambda>ev. \<not> pipeline_call ev) (fst (main en sched)) \<and>
         (i \<in> set sched \<longrightarrow>
            (\<exists>e'. snd (main en sched) = IifeRejected e') \<and>
            node_process (snd (main en sched)) = Exited 1)"
proof -
  let ?ts = "map AwaitCreateApi (sourceChainUrls cfg)"
  obtain evs r where p: "promise_all en sched ?ts = (evs, r)"
    by (cases "promise_all en sched ?ts")
  have "i < length ?ts" "?ts ! i = AwaitCreateApi (sourceChainUrls cfg ! i)" using assms(2) by auto
  from promise_all_failing[OF this assms(3), of sched] p
  have nr: "\<forall>ss. r \<noteq> Resolved ss" and rj: "i \<in> set sched \<longrightarrow> (\<exists>e'. r = Rejected e')" by auto
  have "list_all source_call evs"
    using promise_all_calls[of en sched ?ts] p by simp
  then have np: "list_all (\<lambda>ev. \<not> pipeline_call ev) evs"
    using source_call_only by (auto simp: list_all_iff)
  show ?thesis
  proof (cases r)
    case Pending
    with assms(1) p np rj show ?thesis
      by (auto simp: main_unfold relay_unfold list_all_iff split: sum.splits)
  next
    case (Resolved ss)
    with nr show ?thesis by simp
  next
    case (Rejected e')
    with assms(1) p np show ?thesis
      by (auto simp: main_unfold relay_unfold list_all_iff split: sum.splits)
  qed
qed

theorem source_failure_blocks_pipeline_witness:
  "loadConfig env_b_down = Inr cfg_ab \<and> 1 < length (sourceChainUrls cfg_ab) \<and>
   wsConnect env_b_down (sourceChainUrls cfg_ab ! 1) None = Some (Error ''unreachable'') \<and>
   snd (main env_b_down [0, 0, 1]) \<noteq> IifeResolved \<and>
   list_all (\<lambda>ev. \<not> pipeline_call ev) (fst (main env_b_down [0, 0, 1])) \<and>
   1 \<in> set [0, 0, 1::nat] \<and>
   (\<exists>e'. snd (main env_b_down [0, 0, 1]) = IifeRejected e') \<and>
   node_process (snd (main env_b_down [0, 0, 1])) = Exited 1"
proof -
  have h4: "1 \<in> set [0, 0, 1::nat]" by simp
  have h1: "loadConfig env_b_down = Inr cfg_ab" by code_simp
  have h2: "1 < length (sourceChainUrls cfg_ab)" by code_simp
  have h3: "wsConnect env_b_down (sourceChainUrls cfg_ab ! 1) None = Some (Error ''unreachable'')"
    by code_simp
  from source_failure_blocks_pipeline[OF h1 h2 h3, of "[0, 0, 1]"] h1 h2 h3 h4
  show ?thesis by blast
qed

text \<open>
  Claim C4. When nothing fails and every source task is resumed at its two awaits, the
  run is exactly: load the configuration; connect the target with the registry; get the
  signer from the seed; construct the target on that handle and signer; start a
  connection for each configured source URL, in order; for each source, the identity
  query on its handle and then its construction (the sources interleaved with one
  another); \<open>subscribeBlocks()\<close> on every source, in order; \<open>processBlocks\<close> on the collected
  subscriptions; \<open>subscribe\<close>. And the async function resolves.
\<close>

theorem startup_sequence:
  assumes "loadConfig en = Inr cfg"
    and "wsConnect en (targetChainUrl cfg) (Some types) = None"
    and "getAccount en (accountSeed cfg) = Inr kp"
    and "\<forall>u\<in>set (sourceChainUrls cfg).
           wsConnect en u None = None \<and> (\<exists>c. systemChain en \<lparr>provider = u, registry = None\<rparr> = Inr c)"
    and "\<forall>i<length (sourceChainUrls cfg). 2 \<le> count_list sched i"
  shows "\<exists>mid sources.
           map (provider \<circ> source_api) sources = sourceChainUrls cfg \<and>
           interleaving (map source_events sources) mid \<and>
           main en sched =
             ([EvLoadConfig,
               EvCreateApi (targetChainUrl cfg) (Some types),
               EvGetAccount (accountSeed cfg),
               EvNewTarget \<lparr>provider = targetChainUrl cfg, registry = Some types\<rparr> kp]
              @ map (\<lambda>u. EvCreateApi u None) (sourceChainUrls cfg)
              @ mid
              @ map EvSubscribeBlocks sources
              @ [EvProcessBlocks
                   \<lparr>target_api = \<lparr>provider = targetChainUrl cfg, registry = Some types\<rparr>,
                      target_signer = kp\<rparr>
                   (map BlocksOf sources),
                 EvSubscribe],
              IifeResolved)"
proof -
  let ?ts = "map AwaitCreateApi (sourceChainUrls cfg)"
  have "final_source en (AwaitCreateApi u) \<noteq> None" if "u \<in> set (sourceChainUrls cfg)" for u
    using assms(4) that by (auto simp: createApi_def)
  then have "\<forall>i<length ?ts. final_source en (?ts ! i) \<noteq> None \<and> awaits (?ts ! i) \<le> count_list sched i"
    using assms(5) by simp
  from promise_all_progress[OF this] obtain evs ss where
    p: "promise_all en sched ?ts = (evs, Resolved ss)" by blast
  from promise_all_sources[OF p] have
    len: "length ss = length (sourceChainUrls cfg)" and
    api: "\<forall>i<length (sourceChainUrls cfg).
            source_api (ss ! i) = \<lparr>provider = sourceChainUrls cfg ! i, registry = None\<rparr>" and
    il: "interleaving (map source_events ss) evs" by auto
  have prov: "map (provider \<circ> source_api) ss = sourceChainUrls cfg"
    using len api by (auto simp: list_eq_iff_nth_eq)
  have "main en sched =
             ([EvLoadConfig,
               EvCreateApi (targetChainUrl cfg) (Some types),
               EvGetAccount (accountSeed cfg),
               EvNewTarget \<lparr>provider = targetChainUrl cfg, registry = Some types\<rparr> kp]
              @ map (\<lambda>u. EvCreateApi u None) (sourceChainUrls cfg)
              @ evs
              @ map EvSubscribeBlocks ss
              @ [EvProcessBlocks
                   \<lparr>target_api = \<lparr>provider = targetChainUrl cfg, registry = Some types\<rparr>,
                      target_signer = kp\<rparr>
                   (map BlocksOf ss),
                 EvSubscribe],
              IifeResolved)"
    using assms(1,2,3) p by (simp add: main_unfold relay_unfold createApi_def)
  with prov il show ?thesis by blast
qed

theorem startup_sequence_witness:
  "loadConfig env_ok = Inr cfg_ab \<and>
   wsConnect env_ok (targetChainUrl cfg_ab) (Some types) = None \<and>
   getAccount env_ok (accountSeed cfg_ab) = Inr (KeyringPair ''//Alice'') \<and>
   sourceChainUrls cfg_ab = [''ws://a'', ''ws://b''] \<and>
   wsConnect env_ok ''ws://a'' None = None \<and>
   wsConnect env_ok ''ws://b'' None = None \<and>
   systemChain env_ok \<lparr>provider = ''ws://a'', registry = None\<rparr> = Inr ''chain of ws://a'' \<and>
   systemChain env_ok \<lparr>provider = ''ws://b'', registry = None\<rparr> = Inr ''chain of ws://b'' \<and>
   count_list [0, 1, 1, 0] (0::nat) = 2 \<and>
   count_list [0, 1, 1, 0] (1::nat) = 2 \<and>
   (\<exists>mid sources.
           map (provider \<circ> source_api) sources = sourceChainUrls cfg_ab \<and>
           interleaving (map source_events sources) mid \<and>
           main env_ok [0, 1, 1, 0] =
             ([EvLoadConfig,
               EvCreateApi (targetChainUrl cfg_ab) (Some types),
               EvGetAccount (accountSeed cfg_ab),
               EvNewTarget \<lparr>provider = targetChainUrl cfg_ab, registry = Some types\<rparr> (KeyringPair ''//Alice'')]
              @ map (\<lambda>u. EvCreateApi u None) (sourceChainUrls cfg_ab)
              @ mid
              @ map EvSubscribeBlocks sources
              @ [EvProcessBlocks
                   \<lparr>target_api = \<lparr>provider = targetChainUrl cfg_ab, registry = Some types\<rparr>,
                      target_signer = KeyringPair ''//Alice''\<rparr>
                   (map BlocksOf sources),
                 EvSubscribe],
              IifeResolved))"
proof -
  have h1: "loadConfig env_ok = Inr cfg_ab" by code_simp
  have h2: "wsConnect env_ok (targetChainUrl cfg_ab) (Some types) = None" by code_simp
  have h3: "getAccount env_ok (accountSeed cfg_ab) = Inr (KeyringPair ''//Alice'')" by code_simp
  have u: "sourceChainUrls cfg_ab = [''ws://a'', ''ws://b'']" by code_simp
  have a1: "wsConnect env_ok ''ws://a'' None = None" by code_simp
  have b1: "wsConnect env_ok ''ws://b'' None = None" by code_simp
  have a2: "systemChain env_ok \<lparr>provider = ''ws://a'', registry = None\<rparr> = Inr ''chain of ws://a''"
    by code_simp
  have b2: "systemChain env_ok \<lparr>provider = ''ws://b'', registry = None\<rparr> = Inr ''chain of ws://b''"
    by code_simp
  have c0: "count_list [0, 1, 1, 0] (0::nat) = 2" by simp
  have c1: "count_list [0, 1, 1, 0] (1::nat) = 2" by simp
  have h4: "\<forall>u\<in>set (sourceChainUrls cfg_ab).
       wsConnect env_ok u None = None \<and> (\<exists>c. systemChain env_ok \<lparr>provider = u, registry = None\<rparr> = Inr c)"
    using a1 b1 a2 b2 unfolding u by simp
  have h5: "\<forall>i<length (sourceChainUrls cfg_ab). 2 \<le> count_list [0, 1, 1, 0] i"
    using c0 c1 unfolding u by (simp add: less_Suc_eq numeral_2_eq_2)
  from startup_sequence[OF h1 h2 h3 h4 h5] h1 h2 h3 u a1 b1 a2 b2 c0 c1 show ?thesis by blast
qed

text \<open>
  Claim C5 says that any failure to connect to the target chain ends the process with a
  non-zero exit code. A connection that is never made need not reject the awaited
  promise: when it never settles, the async function stays at its first await and the
  process keeps running.
\<close>

theorem target_connection_never_settles:
  "loadConfig env_ok = Inr cfg_ab \<and>
   startup NeverSettles env_ok [0, 1, 1, 0] =
     ([EvLoadConfig, EvCreateApi ''ws://target'' (Some types)], IifePending) \<and>
   node_process (snd (startup NeverSettles env_ok [0, 1, 1, 0])) = Running"
  by code_simp

text \<open>
  Claim C5, amended. A failure to connect to the target chain that rejects the awaited
  promise, or of \<open>getAccount\<close> on the seed, is fatal at startup, whatever the schedule: the
  async function rejects with that very error, nothing handles the rejection, so the
  process ends with exit code 1, and no source was connected or constructed and no
  pipeline call was made before. A target connection that never settles leaves the
  async function at its first await, after the call that started the connection and
  nothing else, and the process running.
\<close>

theorem target_or_signer_failure:
  assumes "loadConfig en = Inr cfg"
    and "createApi en (targetChainUrl cfg) (Some types) = Inl e \<or>
         (\<exists>a. createApi en (targetChainUrl cfg) (Some types) = Inr a) \<and> getAccount en (accountSeed cfg) = Inl e"
  shows "snd (startup Settles en sched) = IifeRejected e \<and>
         node_process (snd (startup Settles en sched)) = Exited 1 \<and>
         list_all (\<lambda>ev. \<not> source_connection ev \<and> \<not> source_construction ev \<and> \<not> pipeline_call ev)
           (fst (startup Settles en sched)) \<and>
         startup NeverSettles en sched =
           ([EvLoadConfig, EvCreateApi (targetChainUrl cfg) (Some types)], IifePending) \<and>
         node_process (snd (startup NeverSettles en sched)) = Running"
  using assms by (auto simp: startup_def)

theorem target_or_signer_failure_witness:
  "loadConfig env_target_down = Inr cfg_ab \<and>
   createApi env_target_down (targetChainUrl cfg_ab) (Some types) = Inl (Error ''unreachable'') \<and>
   startup Settles env_target_down [0, 1, 1, 0] =
     ([EvLoadConfig, EvCreateApi ''ws://target'' (Some types)], IifeRejected (Error ''unreachable'')) \<and>
   node_process (snd (startup Settles env_target_down [0, 1, 1, 0])) = Exited 1 \<and>
   node_process (snd (startup NeverSettles env_target_down [0, 1, 1, 0])) = Running \<and>
   loadConfig env_bad_seed = Inr cfg_ab \<and>
   (\<exists>a. createApi env_bad_seed (targetChainUrl cfg_ab) (Some types) = Inr a) \<and>
   getAccount env_bad_seed (accountSeed cfg_ab) = Inl (Error ''invalid seed'') \<and>
   snd (startup Settles env_bad_seed [0, 1, 1, 0]) = IifeRejected (Error ''invalid seed'') \<and>
   node_process (snd (startup Settles env_bad_seed [0, 1, 1, 0])) = Exited 1 \<and>
   list_all (\<lambda>ev. \<not> source_connection ev \<and> \<not> source_construction ev \<and> \<not> pipeline_call ev)
     (fst (startup Settles env_bad_seed [0, 1, 1, 0]))"
proof -
  have h1: "loadConfig env_target_down = Inr cfg_ab" by code_simp
  have h2: "createApi env_target_down (targetChainUrl cfg_ab) (Some types) = Inl (Error ''unreachable'')"
    by code_simp
  have m: "startup Settles env_target_down [0, 1, 1, 0] =
     ([EvLoadConfig, EvCreateApi ''ws://target'' (Some types)], IifeRejected (Error ''unreachable''))"
    by code_simp
  have g1: "loadConfig env_bad_seed = Inr cfg_ab" by code_simp
  have g2: "\<exists>a. createApi env_bad_seed (targetChainUrl cfg_ab) (Some types) = Inr a"
    by (simp add: createApi_def env_bad_seed_def env_ok_def)
  have g3: "getAccount env_bad_seed (accountSeed cfg_ab) = Inl (Error ''invalid seed'')" by code_simp
  note a = target_or_signer_failure[OF h1 disjI1[OF h2], of "[0, 1, 1, 0]"]
  note b = target_or_signer_failure[OF g1 disjI2[OF conjI[OF g2 g3]], of "[0, 1, 1, 0]"]
  from a have a1: "node_process (snd (startup Settles env_target_down [0, 1, 1, 0])) = Exited 1" by blast
  from a have a2: "node_process (snd (startup NeverSettles env_target_down [0, 1, 1, 0])) = Running" by blast
  from b have b1: "snd (startup Settles env_bad_seed [0, 1, 1, 0]) = IifeRejected (Error ''invalid seed'')"
    by blast
  from b have b2: "node_process (snd (startup Settles env_bad_seed [0, 1, 1, 0])) = Exited 1" by blast
  from b have b3: "list_all (\<lambda>ev. \<not> source_connection ev \<and> \<not> source_construction ev \<and> \<not> pipeline_call ev)
     (fst (startup Settles env_bad_seed [0, 1, 1, 0]))" by blast
  from h1 h2 m a1 a2 g1 g2 g3 b1 b2 b3 show ?thesis by blast
qed

text \<open>
  Claim C6. The registry is the static object with the one entry \<open>PutDataObject\<close>, mapped
  to the byte-vector codec \<open>Vec<u8>\<close>. It is given to the target connection when that
  connection is made, which is the first call after loading the configuration, and the
  handle the target is built on is the one created with it.
\<close>

theorem registry_given_to_target:
  assumes "loadConfig en = Inr cfg"
  shows "types = [(''PutDataObject'', ''Vec<u8>'')] \<and>
         take 2 (fst (main en sched)) = [EvLoadConfig, EvCreateApi (targetChainUrl cfg) (Some types)] \<and>
         (\<forall>a kp. EvNewTarget a kp \<in> set (fst (main en sched)) \<longrightarrow>
            a = \<lparr>provider = targetChainUrl cfg, registry = Some types\<rparr>)"
proof -
  obtain evs r where p: "promise_all en sched (map AwaitCreateApi (sourceChainUrls cfg)) = (evs, r)"
    by (cases "promise_all en sched (map AwaitCreateApi (sourceChainUrls cfg))")
  have "list_all source_call evs"
    using promise_all_calls[of en sched "map AwaitCreateApi (sourceChainUrls cfg)"] p by simp
  then have no: "\<And>a kp. EvNewTarget a kp \<notin> set evs"
    using source_call_only by (auto simp: list_all_iff)
  show ?thesis using assms p no
    by (auto simp: main_unfold relay_unfold types_def createApi_def split: sum.splits option.splits promise.splits)
qed

theorem registry_given_to_target_witness:
  "loadConfig env_ok = Inr cfg_ab \<and>
   take 2 (fst (main env_ok [0, 1, 1, 0])) = [EvLoadConfig, EvCreateApi (targetChainUrl cfg_ab) (Some types)] \<and>
   EvNewTarget \<lparr>provider = ''ws://target'', registry = Some [(''PutDataObject'', ''Vec<u8>'')]\<rparr>
     (KeyringPair ''//Alice'') \<in> set (fst (main env_ok [0, 1, 1, 0]))"
proof -
  have h1: "loadConfig env_ok = Inr cfg_ab" by code_simp
  have n: "EvNewTarget \<lparr>provider = ''ws://target'', registry = Some [(''PutDataObject'', ''Vec<u8>'')]\<rparr>
     (KeyringPair ''//Alice'') \<in> set (fst (main env_ok [0, 1, 1, 0]))" by code_simp
  from registry_given_to_target[OF h1, of "[0, 1, 1, 0]"] h1 n show ?thesis by blast
qed

text \<open>
  Claim C7. Calling \<open>processBlocks\<close> submits nothing: the target chain after the call
  is the target chain before it. Whatever calls are made, as long as none of them is
  \<open>subscribe\<close> the target chain stays as it was; in every run of the driver this covers
  all calls before the last one. Execution begins with \<open>subscribe\<close>: the chain after
  \<open>processBlocks\<close> and \<open>subscribe\<close> is the one the driven pipeline leaves.
\<close>

theorem processBlocks_starts_nothing:
  "snd (processBlocks t subs c) = c \<and>
   (EvSubscribe \<notin> set evs \<longrightarrow> target_chain_after w evs c = c) \<and>
   target_chain_after w (butlast (fst (main en sched))) c = c \<and>
   target_chain_after w [EvProcessBlocks t subs, EvSubscribe] c
     = snd (subscribe w (fst (processBlocks t subs c)) c)"
  using main_subscribe_last[of en sched]
  by (simp add: target_chain_after_def foldl_perform_no_subscribe processBlocks_def)

theorem processBlocks_starts_nothing_witness:
  "EvSubscribe \<notin> set [EvLoadConfig, EvProcessBlocks target_t [BlocksOf source_a, BlocksOf source_b]] \<and>
   target_chain_after world_ab
     [EvLoadConfig, EvProcessBlocks target_t [BlocksOf source_a, BlocksOf source_b]] chain0 = chain0 \<and>
   target_chain_after world_ab (butlast (fst (main env_ok [0, 1, 1, 0]))) chain0 = chain0 \<and>
   map tx_nonce (submitted (target_chain_after world_ab (fst (main env_ok [0, 1, 1, 0])) chain0)) = [7, 8, 9, 10]"
proof -
  have h: "EvSubscribe \<notin> set [EvLoadConfig, EvProcessBlocks target_t [BlocksOf source_a, BlocksOf source_b]]"
    by simp
  have s: "map tx_nonce (submitted (target_chain_after world_ab (fst (main env_ok [0, 1, 1, 0])) chain0))
            = [7, 8, 9, 10]" by code_simp
  from processBlocks_starts_nothing[of target_t "[BlocksOf source_a, BlocksOf source_b]" chain0
         "[EvLoadConfig, EvProcessBlocks target_t [BlocksOf source_a, BlocksOf source_b]]" world_ab
         env_ok "[0, 1, 1, 0]"] h s
  show ?thesis by blast
qed

text \<open>
  Claim C8. With an empty list of source URLs (and the target and the signer in order),
  the run is the startup without any source call, \<open>processBlocks\<close> receives no sequence
  at all, the async function resolves and the process keeps running; the pipeline over
  no sequences emits nothing, and the target chain after the whole run is the target
  chain before it, whatever blocks, arrivals and answers the world holds.
\<close>

theorem no_sources_no_submissions:
  assumes "loadConfig en = Inr cfg" and "sourceChainUrls cfg = []"
    and "wsConnect en (targetChainUrl cfg) (Some types) = None"
    and "getAccount en (accountSeed cfg) = Inr kp"
  shows "main en sched =
           ([EvLoadConfig, EvCreateApi (targetChainUrl cfg) (Some types), EvGetAccount (accountSeed cfg),
             EvNewTarget \<lparr>provider = targetChainUrl cfg, registry = Some types\<rparr> kp,
             EvProcessBlocks
               \<lparr>target_api = \<lparr>provider = targetChainUrl cfg, registry = Some types\<rparr>, target_signer = kp\<rparr> [],
             EvSubscribe],
            IifeResolved) \<and>
         node_process (snd (main en sched)) = Running \<and>
         subscribe w (Merged t []) c = ([], c) \<and>
         target_chain_after w (fst (main en sched)) c = c"
proof -
  have p: "promise_all en sched [] = ([], Resolved [])" by (cases sched) simp_all
  have m: "merge_arrivals arr ([] :: block list list) = []" for arr
    by (induction arr) simp_all
  show ?thesis using assms p m
    by (simp add: main_unfold relay_unfold createApi_def target_chain_after_def processBlocks_def)
qed

theorem no_sources_no_submissions_witness:
  "loadConfig env_no_sources = Inr (cfg_ab\<lparr>sourceChainUrls := []\<rparr>) \<and>
   sourceChainUrls (cfg_ab\<lparr>sourceChainUrls := []\<rparr>) = [] \<and>
   wsConnect env_no_sources (targetChainUrl (cfg_ab\<lparr>sourceChainUrls := []\<rparr>)) (Some types) = None \<and>
   getAccount env_no_sources (accountSeed (cfg_ab\<lparr>sourceChainUrls := []\<rparr>)) = Inr (KeyringPair ''//Alice'') \<and>
   snd (main env_no_sources [0, 1]) = IifeResolved \<and>
   node_process (snd (main env_no_sources [0, 1])) = Running \<and>
   subscribe world_ab (Merged target_t []) chain0 = ([], chain0) \<and>
   target_chain_after world_ab (fst (main env_no_sources [0, 1])) chain0 = chain0"
proof -
  have h1: "loadConfig env_no_sources = Inr (cfg_ab\<lparr>sourceChainUrls := []\<rparr>)" by code_simp
  have h2: "sourceChainUrls (cfg_ab\<lparr>sourceChainUrls := []\<rparr>) = []" by simp
  have h3: "wsConnect env_no_sources (targetChainUrl (cfg_ab\<lparr>sourceChainUrls := []\<rparr>)) (Some types) = None"
    by code_simp
  have h4: "getAccount env_no_sources (accountSeed (cfg_ab\<lparr>sourceChainUrls := []\<rparr>)) = Inr (KeyringPair ''//Alice'')"
    by code_simp
  note t = no_sources_no_submissions[OF h1 h2 h3 h4, of "[0, 1]" world_ab target_t chain0]
  from t have a: "snd (main env_no_sources [0, 1]) = IifeResolved" by simp
  from t have b: "node_process (snd (main env_no_sources [0, 1])) = Running" by blast
  from t have c: "subscribe world_ab (Merged target_t []) chain0 = ([], chain0)" by blast
  from t have d: "target_chain_after world_ab (fst (main env_no_sources [0, 1])) chain0 = chain0" by blast
  from h1 h2 h3 h4 a b c d show ?thesis by blast
qed

text \<open>
  Claim C9. In every run that gets as far as the pipeline, whatever the order in which
  the connections completed: there is one source per configured URL, the \<open>i\<close>-th source
  is built on a handle connected to the \<open>i\<close>-th URL and carries the identity queried on
  that handle, \<open>subscribeBlocks()\<close> is called on the sources once each and in that order,
  and the subscriptions are passed to \<open>processBlocks\<close> in that order. These are the only
  pipeline calls of the run.
\<close>

theorem sources_index_aligned:
  assumes "loadConfig en = Inr cfg" and "snd (main en sched) = IifeResolved"
  shows "\<exists>sources tgt pre.
           length sources = length (sourceChainUrls cfg) \<and>
           (\<forall>i<length (sourceChainUrls cfg).
               source_api (sources ! i) = \<lparr>provider = sourceChainUrls cfg ! i, registry = None\<rparr> \<and>
               systemChain en (source_api (sources ! i)) = Inr (source_chain (sources ! i))) \<and>
           fst (main en sched) =
             pre @ map EvSubscribeBlocks sources @ [EvProcessBlocks tgt (map BlocksOf sources), EvSubscribe] \<and>
           list_all (\<lambda>ev. \<not> pipeline_call ev) pre"
proof -
  from assms obtain targetApi kp where
    t: "createApi en (targetChainUrl cfg) (Some types) = Inr targetApi" and
    k: "getAccount en (accountSeed cfg) = Inr kp"
    by (auto simp: main_unfold split: sum.splits)
  obtain evs r where p: "promise_all en sched (map AwaitCreateApi (sourceChainUrls cfg)) = (evs, r)"
    by (cases "promise_all en sched (map AwaitCreateApi (sourceChainUrls cfg))")
  from assms t k p obtain ss where r: "r = Resolved ss"
    by (cases r) (auto simp: main_unfold relay_unfold)
  let ?pre = "[EvLoadConfig, EvCreateApi (targetChainUrl cfg) (Some types), EvGetAccount (accountSeed cfg),
               EvNewTarget targetApi kp] @ map (\<lambda>u. EvCreateApi u None) (sourceChainUrls cfg) @ evs"
  have "list_all source_call evs"
    using promise_all_calls[of en sched "map AwaitCreateApi (sourceChainUrls cfg)"] p by simp
  then have "list_all (\<lambda>ev. \<not> pipeline_call ev) evs"
    using source_call_only by (auto simp: list_all_iff)
  then have pre: "list_all (\<lambda>ev. \<not> pipeline_call ev) ?pre" by (auto simp: list_all_iff)
  have tr: "fst (main en sched) = ?pre @ map EvSubscribeBlocks ss
      @ [EvProcessBlocks \<lparr>target_api = targetApi, target_signer = kp\<rparr> (map BlocksOf ss), EvSubscribe]"
    using assms t k p r by (simp add: main_unfold relay_unfold)
  from promise_all_sources[OF p[unfolded r]] pre tr show ?thesis by blast
qed

theorem sources_index_aligned_witness:
  "loadConfig env_ok = Inr cfg_ab \<and> snd (main env_ok [1, 1, 0, 0]) = IifeResolved \<and>
   (\<exists>sources tgt pre.
           length sources = length (sourceChainUrls cfg_ab) \<and>
           (\<forall>i<length (sourceChainUrls cfg_ab).
               source_api (sources ! i) = \<lparr>provider = sourceChainUrls cfg_ab ! i, registry = None\<rparr> \<and>
               systemChain env_ok (source_api (sources ! i)) = Inr (source_chain (sources ! i))) \<and>
           fst (main env_ok [1, 1, 0, 0]) =
             pre @ map EvSubscribeBlocks sources @ [EvProcessBlocks tgt (map BlocksOf sources), EvSubscribe] \<and>
           list_all (\<lambda>ev. \<not> pipeline_call ev) pre)"
proof -
  have h1: "loadConfig env_ok = Inr cfg_ab" by code_simp
  have h2: "snd (main env_ok [1, 1, 0, 0]) = IifeResolved" by code_simp
  from sources_index_aligned[OF h1 h2] h1 h2 show ?thesis by blast
qed

text \<open>
  Claim C10. No connection to a source chain is attempted before the connection to the
  target chain has completed and the signer and the target have been made: whenever a
  run calls \<open>createApi(url)\<close> for a source at all, the configuration was loaded, the target
  connection succeeded, \<open>getAccount\<close> returned a signer, the run began with exactly these
  four calls, the construction of the target last, and the source connection came after
  them. So a run in which the target connection or the signer fails opens no source
  connection.
\<close>

theorem sources_connected_after_target:
  "source_connection ev \<Longrightarrow> ev \<in> set (fst (main en sched)) \<Longrightarrow>
   (\<exists>cfg targetApi kp rest.
      loadConfig en = Inr cfg \<and>
      createApi en (targetChainUrl cfg) (Some types) = Inr targetApi \<and>
      getAccount en (accountSeed cfg) = Inr kp \<and>
      fst (main en sched) =
        [EvLoadConfig, EvCreateApi (targetChainUrl cfg) (Some types), EvGetAccount (accountSeed cfg),
         EvNewTarget targetApi kp] @ rest \<and>
      ev \<in> set rest)"
  by (auto simp: main_unfold relay_unfold split: sum.splits prod.splits)

theorem sources_connected_after_target_witness:
  "source_connection (EvCreateApi ''ws://b'' None) \<and>
   EvCreateApi ''ws://b'' None \<in> set (fst (main env_b_down [1])) \<and>
   (\<exists>cfg targetApi kp rest.
      loadConfig env_b_down = Inr cfg \<and>
      createApi env_b_down (targetChainUrl cfg) (Some types) = Inr targetApi \<and>
      getAccount env_b_down (accountSeed cfg) = Inr kp \<and>
      fst (main env_b_down [1]) =
        [EvLoadConfig, EvCreateApi (targetChainUrl cfg) (Some types), EvGetAccount (accountSeed cfg),
         EvNewTarget targetApi kp] @ rest \<and>
      EvCreateApi ''ws://b'' None \<in> set rest)"
proof -
  have h1: "source_connection (EvCreateApi ''ws://b'' None)" by simp
  have h2: "EvCreateApi ''ws://b'' None \<in> set (fst (main env_b_down [1]))" by code_simp
  from sources_connected_after_target[OF h1 h2] h1 h2 show ?thesis by blast
qed

end
